theory Spec2Isabelle
  imports Main "HOL-Library.List_Lexorder" "HOL-Library.Char_ord"
begin

section \<open>Secondary index over a transactional key-value store (kv/index.go)\<close>

text \<open>
  Byte slices are lists of 8-bit characters; the lexicographic order on them (bytewise,
  as \<^verbatim>\<open>bytes.Compare\<close>) is the store's key order.
\<close>

type_synonym bytes = "char list"

subsection \<open>Errors\<close>

text \<open>
  \<^verbatim>\<open>ErrKeyNotFound\<close> is the store's sentinel; \<^verbatim>\<open>ErrKeyIndexedBy pk fk e\<close> is
  \<^verbatim>\<open>fmt.Errorf("for key %v indexed by %v: %w", pk, fk, e)\<close>;
  \<^verbatim>\<open>ErrMalformedIndexKey\<close> is \<^verbatim>\<open>errors.New("malformed index key")\<close>.
  \<^verbatim>\<open>ErrStore\<close> and \<^verbatim>\<open>ErrDerive\<close> stand for the failures raised by the store and
  by the caller's derivation function. \<^verbatim>\<open>PanicSliceBounds\<close> is the run-time panic of
  a slice expression with a negative bound.
\<close>

datatype error =
    ErrKeyNotFound
  | ErrBucketNotFound
  | ErrMalformedIndexKey
  | ErrKeyIndexedBy bytes bytes error
  | ErrStore string
  | ErrDerive string
  | PanicSliceBounds

text \<open>Modelled from the spec: \<^verbatim>\<open>IsNotFound\<close> is declared outside the given sources; a
  lookup "fails with KeyNotFound when absent", and that sentinel is what it recognises.\<close>

definition IsNotFound :: "error \<Rightarrow> bool" where
  "IsNotFound err = (err = ErrKeyNotFound)"

subsection \<open>The transactional store\<close>

text \<open>
  Modelled from the spec: the interfaces \<^verbatim>\<open>Store\<close>, \<^verbatim>\<open>Tx\<close>, \<^verbatim>\<open>Bucket\<close> and
  \<^verbatim>\<open>ForwardCursor\<close> are declared outside the given sources. A bucket holds key/value
  pairs in ascending key order. A transaction sees the buckets that exist, and every
  access may fail: \<open>fails\<close> gives the error injected into an operation, if any.
\<close>

type_synonym kvs = "(bytes \<times> bytes) list"

datatype op =
    OpBegin
  | OpCommit
  | OpBucket bytes
  | OpGet bytes bytes
  | OpPut bytes bytes bytes
  | OpDelete bytes bytes
  | OpCursor bytes
  | OpNext bytes bytes
  | OpClose bytes

record tx =
  buckets :: "bytes \<Rightarrow> kvs option"
  fails :: "op \<Rightarrow> error option"

definition contents :: "tx \<Rightarrow> bytes \<Rightarrow> kvs" where
  "contents t b = (case buckets t b of None \<Rightarrow> [] | Some es \<Rightarrow> es)"

text \<open>Modelled from the spec: \<^verbatim>\<open>Tx.Bucket(name)\<close> fails with a not-found error if the
  bucket was never created.\<close>

definition txBucket :: "tx \<Rightarrow> bytes \<Rightarrow> error + bytes" where
  "txBucket t name =
     (case fails t (OpBucket name) of
        Some e \<Rightarrow> Inl e
      | None \<Rightarrow> (case buckets t name of None \<Rightarrow> Inl ErrBucketNotFound | Some es \<Rightarrow> Inr name))"

text \<open>Modelled from the spec: \<^verbatim>\<open>Bucket.Get(key)\<close> fails with \<^verbatim>\<open>ErrKeyNotFound\<close> when the key
  is absent.\<close>

definition Get :: "tx \<Rightarrow> bytes \<Rightarrow> bytes \<Rightarrow> error + bytes" where
  "Get t b key =
     (case fails t (OpGet b key) of
        Some e \<Rightarrow> Inl e
      | None \<Rightarrow> (case map_of (contents t b) key of None \<Rightarrow> Inl ErrKeyNotFound | Some v \<Rightarrow> Inr v))"

text \<open>Modelled from the spec: writing a pair into entries kept in ascending key order.\<close>

fun upsert :: "bytes \<Rightarrow> bytes \<Rightarrow> kvs \<Rightarrow> kvs" where
  "upsert k v [] = [(k, v)]"
| "upsert k v ((k', v') # es) =
     (if k = k' then (k, v) # es
      else if k < k' then (k, v) # (k', v') # es
      else (k', v') # upsert k v es)"

text \<open>Modelled from the spec: \<^verbatim>\<open>Bucket.Put(key, value)\<close> writes the pair at its place in the
  key order, replacing the value of an existing key.\<close>

definition Put :: "tx \<Rightarrow> bytes \<Rightarrow> bytes \<Rightarrow> bytes \<Rightarrow> error option \<times> tx" where
  "Put t b key val =
     (case fails t (OpPut b key val) of
        Some e \<Rightarrow> (Some e, t)
      | None \<Rightarrow> (None, t\<lparr>buckets := (buckets t)(b \<mapsto> upsert key val (contents t b))\<rparr>))"

text \<open>Modelled from the spec: \<^verbatim>\<open>Bucket.Delete(key)\<close> removes the key; an absent key is not
  an error.\<close>

definition bucketDelete :: "tx \<Rightarrow> bytes \<Rightarrow> bytes \<Rightarrow> error option \<times> tx" where
  "bucketDelete t b key =
     (case fails t (OpDelete b key) of
        Some e \<Rightarrow> (Some e, t)
      | None \<Rightarrow>
          (None, t\<lparr>buckets := (buckets t)(b \<mapsto> filter (\<lambda>(k, v). k \<noteq> key) (contents t b))\<rparr>))"

text \<open>
  Modelled from the spec: a cursor. \<open>rows\<close> are the pairs \<^verbatim>\<open>Next()\<close> still returns before
  it returns nil,
  \<open>iterErr\<close> is what \<^verbatim>\<open>Err()\<close> reports, \<open>closeErr\<close> is what \<^verbatim>\<open>Close()\<close> returns and
  \<open>closed\<close> counts the calls of \<^verbatim>\<open>Close()\<close>.
\<close>

record cursor =
  rows :: kvs
  iterErr :: "error option"
  closeErr :: "error option"
  closed :: nat

definition cursorClose :: "cursor \<Rightarrow> error option \<times> cursor" where
  "cursorClose c = (closeErr c, c\<lparr>closed := closed c + 1\<rparr>)"

text \<open>\<^verbatim>\<open>bytes.HasPrefix(s, prefix)\<close> of the standard library.\<close>

fun HasPrefix :: "bytes \<Rightarrow> bytes \<Rightarrow> bool" where
  "HasPrefix s [] = True"
| "HasPrefix [] (p # ps) = False"
| "HasPrefix (x # xs) (p # ps) = (x = p \<and> HasPrefix xs ps)"

text \<open>
  Modelled from the spec: \<^verbatim>\<open>Bucket.ForwardCursor(seek, WithCursorPrefix(prefix))\<close> yields
  the keys from \<open>seek\<close> on, in ascending order, restricted to those with the prefix when one is given. A failure
  injected into reading a row ends the iteration there and is reported by \<^verbatim>\<open>Err()\<close>.
\<close>

definition ForwardCursor :: "tx \<Rightarrow> bytes \<Rightarrow> bytes \<Rightarrow> bytes option \<Rightarrow> error + cursor" where
  "ForwardCursor t b seek pfx =
     (case fails t (OpCursor b) of
        Some e \<Rightarrow> Inl e
      | None \<Rightarrow>
          (let inRange = filter (\<lambda>(k, v). seek \<le> k \<and>
                  (case pfx of None \<Rightarrow> True | Some p \<Rightarrow> HasPrefix k p)) (contents t b);
               readable = (\<lambda>(k, v). fails t (OpNext b k) = None)
           in Inr \<lparr>rows = takeWhile readable inRange,
                   iterErr = (case dropWhile readable inRange of
                                [] \<Rightarrow> None
                              | (k, v) # rest \<Rightarrow> fails t (OpNext b k)),
                   closeErr = fails t (OpClose b),
                   closed = 0\<rparr>))"

subsection \<open>Index and composite keys\<close>

record index =
  SourceBucket :: bytes
  IndexBucket :: bytes
  IndexSourceOn :: "bytes \<Rightarrow> error + bytes"
  populateBatchSize :: int
  canRead :: bool

definition defaultPopulateBatchSize :: int where
  "defaultPopulateBatchSize = 100"

definition WithIndexReadPathEnabled :: "index \<Rightarrow> index" where
  "WithIndexReadPathEnabled i = i\<lparr>canRead := True\<rparr>"

definition WithPopulateBatchSize :: "int \<Rightarrow> index \<Rightarrow> index" where
  "WithPopulateBatchSize n i = i\<lparr>populateBatchSize := n\<rparr>"

definition NewIndex ::
  "bytes \<Rightarrow> bytes \<Rightarrow> (bytes \<Rightarrow> error + bytes) \<Rightarrow> (index \<Rightarrow> index) list \<Rightarrow> index" where
  "NewIndex sourceB indexB fn opts =
     fold (\<lambda>opt i. opt i) opts
       \<lparr>SourceBucket = sourceB, IndexBucket = indexB, IndexSourceOn = fn,
        populateBatchSize = defaultPopulateBatchSize, canRead = False\<rparr>"

definition indexBucket :: "index \<Rightarrow> tx \<Rightarrow> error + bytes" where
  "indexBucket i t = txBucket t (IndexBucket i)"

definition sourceBucket :: "index \<Rightarrow> tx \<Rightarrow> error + bytes" where
  "sourceBucket i t = txBucket t (SourceBucket i)"

text \<open>\<^verbatim>\<open>indexKey\<close>: foreign key, the separator \<^verbatim>\<open>'/'\<close>, primary key; its error is always nil.\<close>

definition indexKey :: "bytes \<Rightarrow> bytes \<Rightarrow> error + bytes" where
  "indexKey foreignKey primaryKey = Inr (foreignKey @ CHR ''/'' # primaryKey)"

text \<open>\<^verbatim>\<open>bytes.SplitN(s, []byte("/"), 2)\<close>: cut at the first separator, if there is one.\<close>

definition SplitN2 :: "bytes \<Rightarrow> bytes list" where
  "SplitN2 s =
     (if CHR ''/'' \<in> set s
      then [takeWhile (\<lambda>c. c \<noteq> CHR ''/'') s, tl (dropWhile (\<lambda>c. c \<noteq> CHR ''/'') s)]
      else [s])"

definition indexKeyParts :: "bytes \<Rightarrow> error + (bytes \<times> bytes)" where
  "indexKeyParts k =
     (let parts = SplitN2 k
      in if length parts < 2 then Inl ErrMalformedIndexKey
         else Inr (parts ! 0, parts ! 1))"

definition Insert :: "index \<Rightarrow> tx \<Rightarrow> bytes \<Rightarrow> bytes \<Rightarrow> error option \<times> tx" where
  "Insert i t foreignKey primaryKey =
     (case indexKey foreignKey primaryKey of
        Inl err \<Rightarrow> (Some err, t)
      | Inr newKey \<Rightarrow>
          (case indexBucket i t of
             Inl err \<Rightarrow> (Some err, t)
           | Inr bkt \<Rightarrow> Put t bkt newKey primaryKey))"

definition Delete :: "index \<Rightarrow> tx \<Rightarrow> bytes \<Rightarrow> bytes \<Rightarrow> error option \<times> tx" where
  "Delete i t foreignKey primaryKey =
     (case indexKey foreignKey primaryKey of
        Inl err \<Rightarrow> (Some err, t)
      | Inr newKey \<Rightarrow>
          (case indexBucket i t of
             Inl err \<Rightarrow> (Some err, t)
           | Inr bkt \<Rightarrow> bucketDelete t bkt newKey))"

subsection \<open>The cross-reference join\<close>

text \<open>
  Callbacks are closures over their caller's variables; the captured variables are the
  state \<open>'s\<close> that each call receives and returns.
\<close>

type_synonym 's VisitFunc = "bytes \<Rightarrow> bytes \<Rightarrow> 's \<Rightarrow> error option \<times> 's"
type_synonym 's notFoundFunc = "bytes \<Rightarrow> bytes \<Rightarrow> 's \<Rightarrow> error option \<times> 's"
type_synonym 's valFunc = "error + bytes \<Rightarrow> 's \<Rightarrow> error option \<times> 's"
type_synonym 's mappingFunc = "bytes \<Rightarrow> bytes \<Rightarrow> error + (bytes \<times> 's valFunc)"

text \<open>
  The \<^verbatim>\<open>for\<close> loop of \<^verbatim>\<open>crossReference\<close> over the rows the cursor yields: the result is
  the error the loop returned with (if any), the rows not yet consumed and the state.
\<close>

fun crossReferenceLoop ::
  "kvs \<Rightarrow> tx \<Rightarrow> bytes \<Rightarrow> 's mappingFunc \<Rightarrow> 's \<Rightarrow> error option \<times> kvs \<times> 's" where
  "crossReferenceLoop [] t bucket fn s = (None, [], s)"
| "crossReferenceLoop ((k, v) # rest) t bucket fn s =
     (case fn k v of
        Inl err \<Rightarrow> (Some err, rest, s)
      | Inr (key, valFn) \<Rightarrow>
          (case valFn (Get t bucket key) s of
             (Some err, s') \<Rightarrow> (Some err, rest, s')
           | (None, s') \<Rightarrow> crossReferenceLoop rest t bucket fn s'))"

text \<open>
  \<^verbatim>\<open>crossReference\<close>: the loop, then \<^verbatim>\<open>cursor.Err()\<close> if the loop ran to the end, then
  the deferred \<^verbatim>\<open>cursor.Close()\<close>, whose error is returned only if there is no other.
\<close>

definition crossReference ::
  "cursor \<Rightarrow> tx \<Rightarrow> bytes \<Rightarrow> 's mappingFunc \<Rightarrow> 's \<Rightarrow> error option \<times> cursor \<times> 's" where
  "crossReference c t bucket fn s =
     (case crossReferenceLoop (rows c) t bucket fn s of
        (lerr, rest, s') \<Rightarrow>
          (let err = (case lerr of Some e \<Rightarrow> Some e | None \<Rightarrow> iterErr c);
               (cerr, c') = cursorClose (c\<lparr>rows := rest\<rparr>)
           in (if cerr \<noteq> None \<and> err = None then cerr else err, c', s')))"

text \<open>The mapping function \<^verbatim>\<open>indexWalk\<close> hands to \<^verbatim>\<open>crossReference\<close>.\<close>

definition indexWalkMapping :: "'s VisitFunc \<Rightarrow> 's notFoundFunc \<Rightarrow> 's mappingFunc" where
  "indexWalkMapping visit notFound = (\<lambda>indexK primaryKey.
     Inr (primaryKey, \<lambda>res.
       (case res of
          Inl err \<Rightarrow>
            (if IsNotFound err
             then (case indexKeyParts indexK of
                     Inl err' \<Rightarrow> (\<lambda>s. (Some err', s))
                   | Inr (fk, pk) \<Rightarrow> notFound fk pk)
             else (\<lambda>s. (Some err, s)))
        | Inr sourceValue \<Rightarrow> visit primaryKey sourceValue)))"

definition indexWalk ::
  "cursor \<Rightarrow> tx \<Rightarrow> bytes \<Rightarrow> 's VisitFunc \<Rightarrow> 's notFoundFunc \<Rightarrow> 's
     \<Rightarrow> error option \<times> cursor \<times> 's" where
  "indexWalk indexCursor t sourceB visit notFound =
     crossReference indexCursor t sourceB (indexWalkMapping visit notFound)"

text \<open>The mapping function \<^verbatim>\<open>missingIndexWalk\<close> hands to \<^verbatim>\<open>crossReference\<close>.\<close>

definition missingIndexWalkMapping :: "index \<Rightarrow> 's notFoundFunc \<Rightarrow> 's mappingFunc" where
  "missingIndexWalkMapping i notFound = (\<lambda>primaryKey body.
     (case IndexSourceOn i body of
        Inl err \<Rightarrow> Inl err
      | Inr foreignKey \<Rightarrow>
          (case indexKey foreignKey primaryKey of
             Inl err \<Rightarrow> Inl err
           | Inr indexK \<Rightarrow>
               Inr (indexK, \<lambda>res.
                 (case res of
                    Inl err \<Rightarrow>
                      (if IsNotFound err then notFound indexK primaryKey
                       else (\<lambda>s. (Some err, s)))
                  | Inr val \<Rightarrow> (\<lambda>s. (None, s)))))))"

definition missingIndexWalk ::
  "index \<Rightarrow> cursor \<Rightarrow> tx \<Rightarrow> bytes \<Rightarrow> 's notFoundFunc \<Rightarrow> 's \<Rightarrow> error option \<times> cursor \<times> 's" where
  "missingIndexWalk i srcCursor t indexB notFound =
     crossReference srcCursor t indexB (missingIndexWalkMapping i notFound)"

subsection \<open>Walk\<close>

definition Walk :: "index \<Rightarrow> tx \<Rightarrow> bytes \<Rightarrow> 's VisitFunc \<Rightarrow> 's \<Rightarrow> error option \<times> 's" where
  "Walk i t foreignKey visitFn s =
     (if \<not> canRead i then (None, s)
      else
        (case sourceBucket i t of
           Inl err \<Rightarrow> (Some err, s)
         | Inr sourceB \<Rightarrow>
             (case indexBucket i t of
                Inl err \<Rightarrow> (Some err, s)
              | Inr indexB \<Rightarrow>
                  (case ForwardCursor t indexB foreignKey (Some foreignKey) of
                     Inl err \<Rightarrow> (Some err, s)
                   | Inr cur \<Rightarrow>
                       (case indexWalk cur t sourceB visitFn
                               (\<lambda>fk pk s'. (Some (ErrKeyIndexedBy pk fk ErrKeyNotFound), s')) s of
                          (err, c', s') \<Rightarrow> (err, s'))))))"

subsection \<open>Populate\<close>

text \<open>
  Modelled from the spec: \<^verbatim>\<open>Store.View\<close> and \<^verbatim>\<open>Store.Update\<close> run a function in a
  transaction and propagate its error or a commit failure. \<open>committed\<close> is the durable
  state, \<open>started\<close> counts the transactions opened so far and \<open>faults n\<close> are the failures
  injected into the transaction opened as number \<open>n\<close>. A failed update leaves the durable
  state as it was. The variables the function captures are the state \<open>'a\<close>, which keeps
  its updates also when the transaction fails.
\<close>

record store =
  committed :: "bytes \<Rightarrow> kvs option"
  faults :: "nat \<Rightarrow> op \<Rightarrow> error option"
  started :: nat

definition beginTx :: "store \<Rightarrow> tx \<times> store" where
  "beginTx st =
     (\<lparr>buckets = committed st, fails = faults st (started st)\<rparr>,
      st\<lparr>started := started st + 1\<rparr>)"

definition View ::
  "store \<Rightarrow> (tx \<Rightarrow> 'a \<Rightarrow> error option \<times> 'a) \<Rightarrow> 'a \<Rightarrow> error option \<times> store \<times> 'a" where
  "View st fn a =
     (case beginTx st of
        (t, st') \<Rightarrow>
          (case fails t OpBegin of
             Some e \<Rightarrow> (Some e, st', a)
           | None \<Rightarrow>
               (case fn t a of
                  (Some e, a') \<Rightarrow> (Some e, st', a')
                | (None, a') \<Rightarrow> (fails t OpCommit, st', a'))))"

definition Update ::
  "store \<Rightarrow> (tx \<Rightarrow> 'a \<Rightarrow> error option \<times> tx \<times> 'a) \<Rightarrow> 'a \<Rightarrow> error option \<times> store \<times> 'a" where
  "Update st fn a =
     (case beginTx st of
        (t, st') \<Rightarrow>
          (case fails t OpBegin of
             Some e \<Rightarrow> (Some e, st', a)
           | None \<Rightarrow>
               (case fn t a of
                  (Some e, t', a') \<Rightarrow> (Some e, st', a')
                | (None, t', a') \<Rightarrow>
                    (case fails t OpCommit of
                       Some e \<Rightarrow> (Some e, st', a')
                     | None \<Rightarrow> (None, st'\<lparr>committed := buckets t'\<rparr>, a')))))"




text \<open>The function \<^verbatim>\<open>Populate\<close> runs in its read transaction; it captures \<open>missing\<close>.\<close>

definition collectMissing :: "index \<Rightarrow> tx \<Rightarrow> kvs \<Rightarrow> error option \<times> kvs" where
  "collectMissing i t missing =
     (case sourceBucket i t of
        Inl err \<Rightarrow> (Some err, missing)
      | Inr sourceB \<Rightarrow>
          (case ForwardCursor t sourceB [] None of
             Inl err \<Rightarrow> (Some err, missing)
           | Inr cur \<Rightarrow>
               (case indexBucket i t of
                  Inl err \<Rightarrow> (Some err, missing)
                | Inr indexB \<Rightarrow>
                    (case missingIndexWalk i cur t indexB
                            (\<lambda>fk pk m. (None, m @ [(fk, pk)])) missing of
                       (err, c', missing') \<Rightarrow> (err, missing')))))"

text \<open>The \<^verbatim>\<open>for _, pair := range batch\<close> loop; it captures the count \<open>n\<close>.\<close>

fun putBatch :: "bytes \<Rightarrow> kvs \<Rightarrow> tx \<Rightarrow> nat \<Rightarrow> error option \<times> tx \<times> nat" where
  "putBatch indexB [] t n = (None, t, n)"
| "putBatch indexB ((k, v) # batch) t n =
     (case Put t indexB k v of
        (Some err, t') \<Rightarrow> (Some err, t', n)
      | (None, t') \<Rightarrow> putBatch indexB batch t' (n + 1))"

text \<open>The function \<^verbatim>\<open>Populate\<close> runs in each write transaction.\<close>

definition writeBatch :: "index \<Rightarrow> kvs \<Rightarrow> tx \<Rightarrow> nat \<Rightarrow> error option \<times> tx \<times> nat" where
  "writeBatch i batch t n =
     (case indexBucket i t of
        Inl err \<Rightarrow> (Some err, t, n)
      | Inr indexB \<Rightarrow> putBatch indexB batch t n)"

text \<open>
  The \<^verbatim>\<open>for len(missing) > 0\<close> loop. It need not end (a batch size of zero never
  shortens \<open>missing\<close>), so not returning is the value \<open>None\<close>. A negative batch size makes
  \<^verbatim>\<open>missing[:end]\<close> panic.
\<close>

partial_function (option) populateLoop ::
  "index \<Rightarrow> store \<Rightarrow> kvs \<Rightarrow> nat \<Rightarrow> (nat \<times> error option \<times> store) option" where
  "populateLoop i st missing n =
     (if length missing > 0 then
        (let end = (if populateBatchSize i > int (length missing)
                    then int (length missing) else populateBatchSize i)
         in if end < 0 then Some (n, Some PanicSliceBounds, st)
            else
              (case Update st (writeBatch i (take (nat end) missing)) n of
                 (Some err, st', n') \<Rightarrow> Some (n', Some err, st')
               | (None, st', n') \<Rightarrow> populateLoop i st' (drop (nat end) missing) n'))
      else Some (n, None, st))"

definition Populate :: "index \<Rightarrow> store \<Rightarrow> (nat \<times> error option \<times> store) option" where
  "Populate i st =
     (case View st (collectMissing i) [] of
        (Some err, st', missing) \<Rightarrow> Some (0, Some err, st')
      | (None, st', missing) \<Rightarrow> populateLoop i st' missing 0)"

subsection \<open>Verify\<close>

text \<open>The three maps of \<^verbatim>\<open>IndexDiff\<close>; a nil map and an empty map are both the empty map.\<close>

record IndexDiff =
  PresentInIndex :: "bytes \<Rightarrow> bytes list option"
  MissingFromIndex :: "bytes \<Rightarrow> bytes list option"
  MissingFromSource :: "bytes \<Rightarrow> bytes list option"

definition emptyDiff :: IndexDiff where
  "emptyDiff = \<lparr>PresentInIndex = Map.empty, MissingFromIndex = Map.empty,
                MissingFromSource = Map.empty\<rparr>"

definition appendAt :: "(bytes \<Rightarrow> bytes list option) \<Rightarrow> bytes \<Rightarrow> bytes \<Rightarrow> (bytes \<Rightarrow> bytes list option)" where
  "appendAt m fk pk = m(fk \<mapsto> (case m fk of None \<Rightarrow> [] | Some pks \<Rightarrow> pks) @ [pk])"

definition addToPresent :: "IndexDiff \<Rightarrow> bytes \<Rightarrow> bytes \<Rightarrow> IndexDiff" where
  "addToPresent d fk pk = d\<lparr>PresentInIndex := appendAt (PresentInIndex d) fk pk\<rparr>"

definition addMissingSource :: "IndexDiff \<Rightarrow> bytes \<Rightarrow> bytes \<Rightarrow> IndexDiff" where
  "addMissingSource d fk pk = d\<lparr>MissingFromSource := appendAt (MissingFromSource d) fk pk\<rparr>"

definition addMissingIndex :: "IndexDiff \<Rightarrow> bytes \<Rightarrow> bytes \<Rightarrow> IndexDiff" where
  "addMissingIndex d fk pk = d\<lparr>MissingFromIndex := appendAt (MissingFromIndex d) fk pk\<rparr>"

text \<open>\<^verbatim>\<open>diff\<close> is a named result: each bare \<^verbatim>\<open>return\<close> returns it as it then is.\<close>

definition Verify :: "index \<Rightarrow> tx \<Rightarrow> IndexDiff \<times> error option" where
  "Verify i t =
     (case sourceBucket i t of
        Inl err \<Rightarrow> (emptyDiff, Some err)
      | Inr sourceB \<Rightarrow>
          (case indexBucket i t of
             Inl err \<Rightarrow> (emptyDiff, Some err)
           | Inr indexB \<Rightarrow>
               (case ForwardCursor t indexB [] None of
                  Inl err \<Rightarrow> (emptyDiff, Some err)
                | Inr cur \<Rightarrow>
                    (case indexWalk cur t sourceB
                            (\<lambda>k v diff.
                               (case IndexSourceOn i v of
                                  Inl err \<Rightarrow> (Some err, diff)
                                | Inr fk \<Rightarrow> (None, addToPresent diff fk k)))
                            (\<lambda>fk pk diff. (None, addMissingSource diff fk pk))
                            emptyDiff of
                       (Some err, c', diff) \<Rightarrow> (diff, Some err)
                     | (None, c', diff) \<Rightarrow>
                         (case ForwardCursor t sourceB [] None of
                            Inl err \<Rightarrow> (diff, Some err)
                          | Inr cur2 \<Rightarrow>
                              (case missingIndexWalk i cur2 t indexB
                                      (\<lambda>indexK pk0 diff'.
                                         (case indexKeyParts indexK of
                                            Inl err \<Rightarrow> (Some err, diff')
                                          | Inr (fk, pk) \<Rightarrow> (None, addMissingIndex diff' fk pk)))
                                      diff of
                                 (err, c'', diff') \<Rightarrow> (diff', err)))))))"

text \<open>Names for the closures \<^verbatim>\<open>Verify\<close> hands to \<^verbatim>\<open>indexWalk\<close> and \<^verbatim>\<open>missingIndexWalk\<close>.\<close>

abbreviation verifyVisit :: "index \<Rightarrow> IndexDiff VisitFunc" where
  "verifyVisit i \<equiv> (\<lambda>k v diff.
     (case IndexSourceOn i v of
        Inl err \<Rightarrow> (Some err, diff)
      | Inr fk \<Rightarrow> (None, addToPresent diff fk k)))"

abbreviation verifyNotFound :: "IndexDiff notFoundFunc" where
  "verifyNotFound \<equiv> (\<lambda>fk pk diff. (None, addMissingSource diff fk pk))"

abbreviation verifyMissingIndex :: "IndexDiff notFoundFunc" where
  "verifyMissingIndex \<equiv> (\<lambda>indexK pk0 diff'.
     (case indexKeyParts indexK of
        Inl err \<Rightarrow> (Some err, diff')
      | Inr (fk, pk) \<Rightarrow> (None, addMissingIndex diff' fk pk)))"

subsection \<open>What Verify records\<close>

text \<open>
  A description of the diff by the rows processed, to be compared with \<^verbatim>\<open>Verify\<close>
  (spec 4.4). A row of the index records its primary key as present, under the foreign
  key derived from the source value, or as missing from the source, under the pair cut
  from its key; a row of the source records nothing when its composite key is in the
  index, and the pair cut from that key as missing from the index otherwise. Any other
  outcome is a failure that ends the walk.
\<close>

datatype recorded =
    PresentEntry bytes bytes
  | MissingSourceEntry bytes bytes
  | MissingIndexEntry bytes bytes
  | NoEntry

fun indexRowRecords :: "index \<Rightarrow> tx \<Rightarrow> bytes \<Rightarrow> bytes \<times> bytes \<Rightarrow> error + recorded" where
  "indexRowRecords i t sourceB (k, pk) =
     (case Get t sourceB pk of
        Inr v \<Rightarrow>
          (case IndexSourceOn i v of
             Inl err \<Rightarrow> Inl err
           | Inr fk \<Rightarrow> Inr (PresentEntry fk pk))
      | Inl err \<Rightarrow>
          if err = ErrKeyNotFound
          then (case indexKeyParts k of
                  Inl err' \<Rightarrow> Inl err'
                | Inr (fk, pk') \<Rightarrow> Inr (MissingSourceEntry fk pk'))
          else Inl err)"

fun sourceRowRecords :: "index \<Rightarrow> tx \<Rightarrow> bytes \<Rightarrow> bytes \<times> bytes \<Rightarrow> error + recorded" where
  "sourceRowRecords i t indexB (pk, body) =
     (case IndexSourceOn i body of
        Inl err \<Rightarrow> Inl err
      | Inr fk \<Rightarrow>
          (case Get t indexB (fk @ CHR ''/'' # pk) of
             Inr v \<Rightarrow> Inr NoEntry
           | Inl err \<Rightarrow>
               if err = ErrKeyNotFound
               then (case indexKeyParts (fk @ CHR ''/'' # pk) of
                       Inl err' \<Rightarrow> Inl err'
                     | Inr (fk', pk') \<Rightarrow> Inr (MissingIndexEntry fk' pk'))
               else Inl err))"

text \<open>The entries recorded by the rows before the first failing one, and that failure.\<close>

fun recordedUntilFailure :: "('r \<Rightarrow> error + recorded) \<Rightarrow> 'r list \<Rightarrow> recorded list" where
  "recordedUntilFailure f [] = []"
| "recordedUntilFailure f (r # rs) =
     (case f r of Inl err \<Rightarrow> [] | Inr e \<Rightarrow> e # recordedUntilFailure f rs)"

fun firstFailure :: "('r \<Rightarrow> error + recorded) \<Rightarrow> 'r list \<Rightarrow> error option" where
  "firstFailure f [] = None"
| "firstFailure f (r # rs) = (case f r of Inl err \<Rightarrow> Some err | Inr e \<Rightarrow> firstFailure f rs)"

text \<open>The maps of the diff: under each foreign key its primary keys, in the order recorded.\<close>

definition grouped :: "(bytes \<times> bytes) list \<Rightarrow> bytes \<Rightarrow> bytes list option" where
  "grouped ps fk =
     (case map snd (filter (\<lambda>(f, p). f = fk) ps) of [] \<Rightarrow> None | pk # pks \<Rightarrow> Some (pk # pks))"

definition diffOf :: "recorded list \<Rightarrow> IndexDiff" where
  "diffOf es =
     \<lparr>PresentInIndex = grouped [(fk, pk). PresentEntry fk pk \<leftarrow> es],
      MissingFromIndex = grouped [(fk, pk). MissingIndexEntry fk pk \<leftarrow> es],
      MissingFromSource = grouped [(fk, pk). MissingSourceEntry fk pk \<leftarrow> es]\<rparr>"

text \<open>
  The entries recorded when \<^verbatim>\<open>Verify\<close> returns: those of the index rows up to a failure
  and, if that walk and its cursor did not fail, those of the source rows up to a failure.
\<close>

definition recordedBeforeFailure :: "index \<Rightarrow> tx \<Rightarrow> IndexDiff" where
  "recordedBeforeFailure i t =
     (case sourceBucket i t of
        Inl err \<Rightarrow> diffOf []
      | Inr sourceB \<Rightarrow>
          (case indexBucket i t of
             Inl err \<Rightarrow> diffOf []
           | Inr indexB \<Rightarrow>
               (case ForwardCursor t indexB [] None of
                  Inl err \<Rightarrow> diffOf []
                | Inr cur \<Rightarrow>
                    (let fromIndex = recordedUntilFailure (indexRowRecords i t sourceB) (rows cur)
                     in if firstFailure (indexRowRecords i t sourceB) (rows cur) \<noteq> None
                           \<or> iterErr cur \<noteq> None \<or> closeErr cur \<noteq> None
                        then diffOf fromIndex
                        else (case ForwardCursor t sourceB [] None of
                                Inl err \<Rightarrow> diffOf fromIndex
                              | Inr cur2 \<Rightarrow>
                                  diffOf (fromIndex @
                                    recordedUntilFailure (sourceRowRecords i t indexB)
                                      (rows cur2)))))))"

subsection \<open>Example fixtures\<close>

text \<open>
  The set-up of the package's documentation: authorizations indexed by user. Here the
  value of a record is its user id, which starts with \<open>u\<close>; any other value is malformed.
  The visitor collects the primary keys it is called with.
\<close>

definition byUserID :: "bytes \<Rightarrow> error + bytes" where
  "byUserID v = (if take 1 v = ''u'' then Inr v else Inl (ErrDerive ''malformed''))"

definition exampleIndex :: index where
  "exampleIndex = NewIndex ''src'' ''idx'' byUserID [WithIndexReadPathEnabled]"

definition exampleBuckets :: "kvs \<Rightarrow> kvs \<Rightarrow> bytes \<Rightarrow> kvs option" where
  "exampleBuckets src idx =
     (\<lambda>b. if b = ''src'' then Some src else if b = ''idx'' then Some idx else None)"

definition exampleTx :: "kvs \<Rightarrow> kvs \<Rightarrow> tx" where
  "exampleTx src idx = \<lparr>buckets = exampleBuckets src idx, fails = (\<lambda>_. None)\<rparr>"

definition exampleStore :: "kvs \<Rightarrow> kvs \<Rightarrow> store" where
  "exampleStore src idx =
     \<lparr>committed = exampleBuckets src idx, faults = (\<lambda>_ _. None), started = 0\<rparr>"

definition collectKeys :: "bytes list VisitFunc" where
  "collectKeys k v s = (None, s @ [k])"




section \<open>Properties\<close>

subsection \<open>Composite keys\<close>

lemma SplitN2_join:
  "CHR ''/'' \<notin> set fk \<Longrightarrow> SplitN2 (fk @ CHR ''/'' # pk) = [fk, pk]"
  by (induction fk) (auto simp: SplitN2_def)

text \<open>
  C1. For every foreign key without the separator byte and every primary key, parsing
  the composite key built from them gives back the pair, with no error.
\<close>

theorem indexKeyParts_indexKey:
  assumes "CHR ''/'' \<notin> set foreignKey"
  shows "(case indexKey foreignKey primaryKey of
            Inl err \<Rightarrow> Inl err
          | Inr k \<Rightarrow> indexKeyParts k) = Inr (foreignKey, primaryKey)"
  using assms by (simp add: indexKey_def indexKeyParts_def SplitN2_join)

theorem indexKeyParts_indexKey_witness:
  "CHR ''/'' \<notin> set ''u1''
   \<and> (case indexKey ''u1'' ''a/1'' of
         Inl err \<Rightarrow> Inl err
       | Inr k \<Rightarrow> indexKeyParts k) = Inr (''u1'', ''a/1'')"
  using indexKeyParts_indexKey [of "''u1''" "''a/1''"] by simp

subsection \<open>The store without injected failures\<close>

lemma txBucket_ok:
  "fails t = (\<lambda>_. None) \<Longrightarrow> buckets t b = Some es \<Longrightarrow> txBucket t b = Inr b"
  by (simp add: txBucket_def)

lemma Get_ok:
  "fails t = (\<lambda>_. None) \<Longrightarrow>
   Get t b k = (case map_of (contents t b) k of None \<Rightarrow> Inl ErrKeyNotFound | Some v \<Rightarrow> Inr v)"
  by (simp add: Get_def)

lemma ForwardCursor_ok:
  "fails t = (\<lambda>_. None) \<Longrightarrow>
   ForwardCursor t b seek pfx =
     Inr \<lparr>rows = filter (\<lambda>(k, v). seek \<le> k \<and>
                  (case pfx of None \<Rightarrow> True | Some p \<Rightarrow> HasPrefix k p)) (contents t b),
          iterErr = None, closeErr = None, closed = 0\<rparr>"
  by (simp add: ForwardCursor_def Let_def case_prod_unfold split: list.splits)

lemma HasPrefix_append: "HasPrefix (p @ s) p"
  by (induction p) simp_all

lemma exampleIndex_simps:
  "SourceBucket exampleIndex = ''src''" "IndexBucket exampleIndex = ''idx''"
  "IndexSourceOn exampleIndex = byUserID" "canRead exampleIndex"
  "populateBatchSize exampleIndex = 100"
  by (simp_all add: exampleIndex_def NewIndex_def WithIndexReadPathEnabled_def
      defaultPopulateBatchSize_def)

lemma exampleTx_simps:
  "fails (exampleTx src idx) = (\<lambda>_. None)"
  "buckets (exampleTx src idx) ''src'' = Some src"
  "buckets (exampleTx src idx) ''idx'' = Some idx"
  by (simp_all add: exampleTx_def exampleBuckets_def)

subsection \<open>The cross-reference join closes its cursor\<close>

text \<open>
  C7. \<^verbatim>\<open>crossReference\<close> closes the driving cursor exactly once however the loop ends
  (rows exhausted, a mapping-function error, a lookup or continuation error, an iteration
  error). The error of the loop, or else of the iteration, is the one returned; the error
  of \<^verbatim>\<open>Close\<close> is returned only when there is no other.
\<close>

theorem crossReference_closes_once:
  assumes "crossReference c t bucket fn s = (err, c', s')"
  shows "closed c' = closed c + 1
       \<and> err = (case fst (crossReferenceLoop (rows c) t bucket fn s) of
                  Some e \<Rightarrow> Some e
                | None \<Rightarrow> (case iterErr c of Some e \<Rightarrow> Some e | None \<Rightarrow> closeErr c))"
  using assms
  by (auto simp: crossReference_def cursorClose_def split: prod.splits option.splits)

theorem crossReference_closes_once_witness:
  "crossReference
     \<lparr>rows = [(''u1/a1'', ''a1'')], iterErr = None, closeErr = Some (ErrStore ''close''),
      closed = 0\<rparr>
     (exampleTx [] []) ''src''
     (indexWalkMapping collectKeys (\<lambda>fk pk s. (Some (ErrKeyIndexedBy pk fk ErrKeyNotFound), s))) []
   = (Some (ErrKeyIndexedBy ''a1'' ''u1'' ErrKeyNotFound),
      \<lparr>rows = [], iterErr = None, closeErr = Some (ErrStore ''close''), closed = 1\<rparr>, [])
   \<and> closed \<lparr>rows = [], iterErr = None, closeErr = Some (ErrStore ''close''), closed = 1\<rparr>
       = closed \<lparr>rows = [(''u1/a1'', ''a1'')], iterErr = None,
                 closeErr = Some (ErrStore ''close''), closed = 0\<rparr> + 1"
proof -
  let ?c = "\<lparr>rows = [(''u1/a1'', ''a1'')], iterErr = None,
             closeErr = Some (ErrStore ''close''), closed = 0\<rparr>"
  let ?fn = "indexWalkMapping collectKeys
               (\<lambda>fk pk s. (Some (ErrKeyIndexedBy pk fk ErrKeyNotFound), s))"
  have run: "crossReference ?c (exampleTx [] []) ''src'' ?fn []
      = (Some (ErrKeyIndexedBy ''a1'' ''u1'' ErrKeyNotFound),
         \<lparr>rows = [], iterErr = None, closeErr = Some (ErrStore ''close''), closed = 1\<rparr>, [])"
    by (simp add: crossReference_def cursorClose_def indexWalkMapping_def Get_def contents_def
        exampleTx_simps IsNotFound_def indexKeyParts_def SplitN2_def)
  from crossReference_closes_once [OF run] run show ?thesis by simp
qed

subsection \<open>Walk\<close>

text \<open>
  C3. With the read path disabled, \<^verbatim>\<open>Walk\<close> returns nil and leaves the visitor's state as
  it was (the visitor is not called); the result is the same for every transaction and
  every visitor, also a transaction in which each access fails: nothing is read.
\<close>

theorem Walk_read_path_disabled:
  assumes "\<not> canRead i"
  shows "Walk i t foreignKey visitFn s = (None, s)
       \<and> (\<forall>t' visitFn'. Walk i t' foreignKey visitFn' s = Walk i t foreignKey visitFn s)"
  using assms by (simp add: Walk_def)

theorem Walk_read_path_disabled_witness:
  "\<not> canRead (NewIndex ''src'' ''idx'' byUserID [])
   \<and> Walk (NewIndex ''src'' ''idx'' byUserID [])
        \<lparr>buckets = (\<lambda>b. None), fails = (\<lambda>opn. Some (ErrStore ''down''))\<rparr>
        ''u1'' collectKeys [] = (None, [])"
proof -
  have h: "\<not> canRead (NewIndex ''src'' ''idx'' byUserID [])"
    by (simp add: NewIndex_def)
  from Walk_read_path_disabled
         [OF h, of "\<lparr>buckets = (\<lambda>b. None), fails = (\<lambda>opn. Some (ErrStore ''down''))\<rparr>"
            "''u1''" collectKeys "[]"] h
  show ?thesis by simp
qed

text \<open>
  With the read path enabled the first access is visible: a failure of the source bucket
  is what \<^verbatim>\<open>Walk\<close> returns.
\<close>

lemma Walk_enabled_reads:
  "canRead i \<Longrightarrow> fails t (OpBucket (SourceBucket i)) = Some e \<Longrightarrow>
   Walk i t foreignKey visitFn s = (Some e, s)"
  by (simp add: Walk_def sourceBucket_def txBucket_def)


lemma HasPrefix_le: "HasPrefix k p \<Longrightarrow> p \<le> k"
  by (induction k p rule: HasPrefix.induct) simp_all

lemma Walk_ok:
  assumes "canRead i"
    and "fails t = (\<lambda>_. None)"
    and "buckets t (IndexBucket i) = Some idx"
    and "buckets t (SourceBucket i) = Some src"
  shows "Walk i t foreignKey visitFn s =
     (case crossReferenceLoop (filter (\<lambda>(k, v). HasPrefix k foreignKey) idx) t (SourceBucket i)
             (indexWalkMapping visitFn
                (\<lambda>fk pk s'. (Some (ErrKeyIndexedBy pk fk ErrKeyNotFound), s'))) s of
        (err, rest, s') \<Rightarrow> (err, s'))"
proof -
  have f: "filter (\<lambda>(k, v). foreignKey \<le> k \<and> HasPrefix k foreignKey) idx
         = filter (\<lambda>(k, v). HasPrefix k foreignKey) idx"
    by (rule filter_cong) (auto dest: HasPrefix_le)
  show ?thesis
    using assms
    by (simp add: Walk_def sourceBucket_def indexBucket_def txBucket_ok ForwardCursor_ok
        indexWalk_def crossReference_def cursorClose_def contents_def f
        split: prod.splits option.splits)
qed






text \<open>
  C10. For a foreign key \<open>fk1\<close> and a longer one \<open>fk1 @ ext\<close>, an index holding an entry
  under the longer key, with its primary key in the source: \<^verbatim>\<open>Walk\<close> for \<open>fk1\<close> calls the
  visitor on that entry, since the cursor's prefix is the bare foreign key.
\<close>

theorem Walk_prefix_overlap:
  assumes "canRead i"
    and "fails t = (\<lambda>_. None)"
    and "ext \<noteq> []"
    and "buckets t (IndexBucket i) = Some [((fk1 @ ext) @ CHR ''/'' # pk, pk)]"
    and "buckets t (SourceBucket i) = Some src"
    and "map_of src pk = Some v"
  shows "Walk i t fk1 visitFn s = visitFn pk v s"
proof -
  have p: "HasPrefix ((fk1 @ ext) @ CHR ''/'' # pk) fk1"
    using HasPrefix_append [of fk1 "ext @ CHR ''/'' # pk"] by simp
  have g: "Get t (SourceBucket i) pk = Inr v"
    using assms(2,5,6) by (simp add: Get_ok contents_def)
  show ?thesis
    using p g
    by (simp add: Walk_ok [OF assms(1,2,4,5)] indexWalkMapping_def
        split: prod.splits option.splits)
qed

theorem Walk_prefix_overlap_witness:
  "canRead exampleIndex \<and> ''1'' \<noteq> []
   \<and> Walk exampleIndex (exampleTx [(''a9'', ''u11'')] [(''u11/a9'', ''a9'')]) ''u1'' collectKeys []
       = (None, [''a9''])"
proof -
  let ?t = "exampleTx [(''a9'', ''u11'')] [(''u11/a9'', ''a9'')]"
  have h3: "''1'' \<noteq> []" by simp
  have h4: "buckets ?t (IndexBucket exampleIndex) = Some [((''u1'' @ ''1'') @ CHR ''/'' # ''a9'', ''a9'')]"
    by (simp add: exampleIndex_simps exampleTx_simps)
  have h5: "buckets ?t (SourceBucket exampleIndex) = Some [(''a9'', ''u11'')]"
    by (simp add: exampleIndex_simps exampleTx_simps)
  have h6: "map_of [(''a9'', ''u11'')] ''a9'' = Some ''u11''" by simp
  from Walk_prefix_overlap [OF exampleIndex_simps(4) exampleTx_simps(1) h3 h4 h5 h6, of collectKeys "[]"]
  show ?thesis
    by (simp add: exampleIndex_simps collectKeys_def)
qed


subsection \<open>Insert and Delete\<close>

lemma map_of_upsert: "map_of (upsert k v es) = (map_of es)(k \<mapsto> v)"
  by (induction es) (auto simp: fun_upd_twist)

lemma upsert_idem: "upsert k v (upsert k v es) = upsert k v es"
  by (induction es) auto

lemma keys_upsert: "set (map fst (upsert k v es)) = insert k (set (map fst es))"
  by (induction k v es rule: upsert.induct) (simp_all add: insert_commute)

lemma sorted_upsert:
  "sorted_wrt (<) (map fst es) \<Longrightarrow> sorted_wrt (<) (map fst (upsert k v es))"
proof (induction es)
  case Nil
  then show ?case by simp
next
  case (Cons e es)
  obtain k' v' where e: "e = (k', v')" by (cases e)
  have tail: "sorted_wrt (<) (map fst es)" and above: "\<forall>x \<in> set (map fst es). k' < x"
    using Cons.prems e by auto
  consider "k = k'" | "k \<noteq> k'" "k < k'" | "k \<noteq> k'" "\<not> k < k'" by blast
  then show ?case
  proof cases
    case 1
    with e tail above show ?thesis by auto
  next
    case 2
    with e tail above show ?thesis by (auto dest: order.strict_trans)
  next
    case 3
    then have "k' < k" by auto
    with 3 e Cons.IH [OF tail] above show ?thesis
      by (simp add: keys_upsert del: set_map)
  qed
qed

lemma count_upsert:
  "sorted_wrt (<) (map fst es) \<Longrightarrow> length (filter (\<lambda>(k', v'). k' = k) (upsert k v es)) = 1"
proof (induction es)
  case Nil
  then show ?case by simp
next
  case (Cons e es)
  obtain k' v' where e: "e = (k', v')" by (cases e)
  have tail: "sorted_wrt (<) (map fst es)" and above: "\<forall>x \<in> set es. k' < fst x"
    using Cons.prems e by auto
  have none: "filter (\<lambda>(k', v'). k' = k) es = []" if "k \<le> k'"
    using that above by (auto simp: filter_empty_conv)
  consider "k = k'" | "k \<noteq> k'" "k < k'" | "k \<noteq> k'" "\<not> k < k'" by blast
  then show ?case
  proof cases
    case 1
    with e none show ?thesis by simp
  next
    case 2
    with e none show ?thesis by simp
  next
    case 3
    with e Cons.IH [OF tail] show ?thesis by simp
  qed
qed

text \<open>
  C8. In a bucket with one entry per key, a second \<^verbatim>\<open>Insert\<close> of a pair succeeds and
  changes nothing: the pair has exactly one entry, whose value is the primary key, and the
  keys stay strictly ascending, so no key occurs twice. \<^verbatim>\<open>Delete\<close> of a pair with no
  entry returns nil and changes nothing, and every \<^verbatim>\<open>Delete\<close> keeps the keys strictly
  ascending.
\<close>

lemma sorted_delete:
  "sorted_wrt (<) (map fst es) \<Longrightarrow> sorted_wrt (<) (map fst (filter (\<lambda>(k, v). k \<noteq> key) es))"
  by (induction es) auto

theorem Insert_twice_Delete_absent:
  assumes "sorted_wrt (<) (map fst (contents t (IndexBucket i)))"
    and "Insert i t foreignKey primaryKey = (None, t1)"
  shows "Insert i t1 foreignKey primaryKey = (None, t1)
       \<and> length (filter (\<lambda>(k, v). k = foreignKey @ CHR ''/'' # primaryKey)
                   (contents t1 (IndexBucket i))) = 1
       \<and> map_of (contents t1 (IndexBucket i)) (foreignKey @ CHR ''/'' # primaryKey)
           = Some primaryKey
       \<and> sorted_wrt (<) (map fst (contents t1 (IndexBucket i)))
       \<and> (\<forall>fk pk. fk @ CHR ''/'' # pk \<notin> set (map fst (contents t (IndexBucket i)))
                   \<and> fails t (OpDelete (IndexBucket i) (fk @ CHR ''/'' # pk)) = None
              \<longrightarrow> Delete i t fk pk = (None, t))
       \<and> (\<forall>fk pk err t2. Delete i t fk pk = (err, t2)
              \<longrightarrow> sorted_wrt (<) (map fst (contents t2 (IndexBucket i))))"
proof -
  let ?b = "IndexBucket i"
  let ?key = "foreignKey @ CHR ''/'' # primaryKey"
  from assms(2) obtain es where nb: "fails t (OpBucket ?b) = None"
    and es: "buckets t ?b = Some es"
    and np: "fails t (OpPut ?b ?key primaryKey) = None"
    and t1: "t1 = t\<lparr>buckets := (buckets t)(?b \<mapsto> upsert ?key primaryKey es)\<rparr>"
    by (auto simp: Insert_def indexKey_def indexBucket_def txBucket_def Put_def contents_def
        split: option.splits)
  have wf: "sorted_wrt (<) (map fst es)" using assms(1) es by (simp add: contents_def)
  have c1: "contents t1 ?b = upsert ?key primaryKey es" by (simp add: t1 contents_def)
  have again: "Insert i t1 foreignKey primaryKey = (None, t1)"
    using nb np
    by (simp add: Insert_def indexKey_def indexBucket_def txBucket_def Put_def contents_def t1
        upsert_idem)
  have ct: "contents t ?b = es" using es by (simp add: contents_def)
  have one: "length (filter (\<lambda>(k, v). k = ?key) (contents t1 ?b)) = 1"
    unfolding c1 by (rule count_upsert [OF wf])
  have found: "map_of (contents t1 ?b) ?key = Some primaryKey"
    unfolding c1 by (simp add: map_of_upsert)
  have sorted1: "sorted_wrt (<) (map fst (contents t1 ?b))"
    unfolding c1 by (rule sorted_upsert [OF wf])
  have del: "Delete i t fk pk = (None, t)"
    if "fk @ CHR ''/'' # pk \<notin> set (map fst es)"
      and "fails t (OpDelete ?b (fk @ CHR ''/'' # pk)) = None" for fk pk
  proof -
    have "filter (\<lambda>(k, v). k \<noteq> fk @ CHR ''/'' # pk) es = es"
      using that(1) by (force simp: filter_id_conv)
    then show ?thesis
      using that(2) nb es
      by (simp add: Delete_def indexKey_def indexBucket_def txBucket_def bucketDelete_def
          contents_def fun_upd_idem)
  qed
  have keep: "sorted_wrt (<) (map fst (contents t2 ?b))" if "Delete i t fk pk = (err, t2)"
    for fk pk err t2
    using that wf es sorted_delete [OF wf]
    by (auto simp: Delete_def indexKey_def indexBucket_def txBucket_def bucketDelete_def
        contents_def split: option.splits if_splits)
  from again one found sorted1 del keep show ?thesis
    unfolding ct by blast
qed

theorem Insert_twice_Delete_absent_witness:
  "sorted_wrt (<) (map fst (contents (exampleTx [] [(''u1/a1'', ''a1'')]) (IndexBucket exampleIndex)))
   \<and> Insert exampleIndex (exampleTx [] [(''u1/a1'', ''a1'')]) ''u1'' ''a2''
       = (None, (exampleTx [] [(''u1/a1'', ''a1'')])
                  \<lparr>buckets := (exampleBuckets [] [(''u1/a1'', ''a1'')])
                      (''idx'' \<mapsto> [(''u1/a1'', ''a1''), (''u1/a2'', ''a2'')])\<rparr>)
   \<and> length (filter (\<lambda>(k, v). k = ''u1/a2'')
               (contents ((exampleTx [] [(''u1/a1'', ''a1'')])
                  \<lparr>buckets := (exampleBuckets [] [(''u1/a1'', ''a1'')])
                      (''idx'' \<mapsto> [(''u1/a1'', ''a1''), (''u1/a2'', ''a2'')])\<rparr>) ''idx'')) = 1
   \<and> Delete exampleIndex (exampleTx [] [(''u1/a1'', ''a1'')]) ''u2'' ''a3''
       = (None, exampleTx [] [(''u1/a1'', ''a1'')])"
proof -
  let ?t = "exampleTx [] [(''u1/a1'', ''a1'')]"
  let ?t1 = "?t\<lparr>buckets := (exampleBuckets [] [(''u1/a1'', ''a1'')])
                      (''idx'' \<mapsto> [(''u1/a1'', ''a1''), (''u1/a2'', ''a2'')])\<rparr>"
  have c: "contents ?t ''idx'' = [(''u1/a1'', ''a1'')]"
    by (simp add: contents_def exampleTx_simps)
  have h1: "sorted_wrt (<) (map fst (contents ?t (IndexBucket exampleIndex)))"
    by (simp add: exampleIndex_simps c)
  have h2: "Insert exampleIndex ?t ''u1'' ''a2'' = (None, ?t1)"
    by (simp add: Insert_def indexKey_def indexBucket_def txBucket_def Put_def c
        exampleIndex_simps exampleTx_simps) (simp add: exampleTx_def)
  from Insert_twice_Delete_absent [OF h1 h2] h1 h2 show ?thesis
    by (simp add: exampleIndex_simps c exampleTx_simps)
qed

subsection \<open>The batch loop of Populate\<close>

text \<open>
  C9. With a positive batch size the batch loop of \<^verbatim>\<open>Populate\<close> returns, for every list
  of missing entries, every store and every pattern of failures: each round drops
  \<open>min populateBatchSize (length missing) \<ge> 1\<close> entries from the list.
\<close>

theorem populateLoop_terminates:
  assumes "0 < populateBatchSize i"
  shows "\<exists>r. populateLoop i st missing n = Some r"
proof (induction "length missing" arbitrary: missing st n rule: less_induct)
  case less
  show ?case
  proof (cases "missing = []")
    case True
    then show ?thesis by (subst populateLoop.simps) simp
  next
    case False
    define e where "e = (if populateBatchSize i > int (length missing)
                         then int (length missing) else populateBatchSize i)"
    have epos: "0 < e" using assms False by (simp add: e_def)
    then have shorter: "length (drop (nat e) missing) < length missing"
      using False by simp
    obtain r st' n' where u: "Update st (writeBatch i (take (nat e) missing)) n = (r, st', n')"
      by (cases "Update st (writeBatch i (take (nat e) missing)) n") auto
    show ?thesis
    proof (cases r)
      case None
      from less [OF shorter, of st' n'] obtain res
        where "populateLoop i st' (drop (nat e) missing) n' = Some res" by blast
      with u None False epos have "populateLoop i st missing n = Some res"
        by (subst populateLoop.simps) (simp add: e_def [symmetric] Let_def)
      then show ?thesis by blast
    next
      case (Some err)
      with u False epos have "populateLoop i st missing n = Some (n', Some err, st')"
        by (subst populateLoop.simps) (simp add: e_def [symmetric] Let_def)
      then show ?thesis by blast
    qed
  qed
qed

theorem populateLoop_terminates_witness:
  "0 < populateBatchSize exampleIndex
   \<and> (\<exists>r. populateLoop exampleIndex (exampleStore [(''a1'', ''u1'')] [])
              [(''u1/a1'', ''a1'')] 0 = Some r)"
proof -
  have h: "0 < populateBatchSize exampleIndex" by (simp add: exampleIndex_simps)
  from populateLoop_terminates [OF h] h show ?thesis by blast
qed

lemma putBatch_ok:
  assumes "fails t = (\<lambda>_. None)" and "buckets t indexB = Some es"
  shows "putBatch indexB batch t n =
           (None, t\<lparr>buckets := (buckets t)(indexB \<mapsto> fold (\<lambda>(k, v). upsert k v) batch es)\<rparr>,
            n + length batch)"
  using assms
proof (induction batch arbitrary: t es n)
  case Nil
  then show ?case by (simp add: fun_upd_idem)
next
  case (Cons e batch)
  obtain k v where e: "e = (k, v)" by (cases e)
  let ?t = "t\<lparr>buckets := (buckets t)(indexB \<mapsto> upsert k v es)\<rparr>"
  have p: "Put t indexB k v = (None, ?t)"
    using Cons.prems by (simp add: Put_def contents_def)
  have "fails ?t = (\<lambda>_. None)" "buckets ?t indexB = Some (upsert k v es)"
    using Cons.prems by simp_all
  note ih = Cons.IH [OF this, of "n + 1"]
  have "putBatch indexB (e # batch) t n = putBatch indexB batch ?t (n + 1)"
    using p e by simp
  also note ih
  also have "(None, ?t\<lparr>buckets := (buckets ?t)(indexB \<mapsto>
                 fold (\<lambda>(k, v). upsert k v) batch (upsert k v es))\<rparr>, n + 1 + length batch)
           = (None, t\<lparr>buckets := (buckets t)(indexB \<mapsto>
                 fold (\<lambda>(k, v). upsert k v) (e # batch) es)\<rparr>, n + length (e # batch))"
    using e by simp
  finally show ?case .
qed

lemma Update_writeBatch_ok:
  assumes "faults st = (\<lambda>_ _. None)" and "committed st (IndexBucket i) = Some es"
  shows "Update st (writeBatch i batch) n =
           (None,
            st\<lparr>started := started st + 1,
               committed := (committed st)(IndexBucket i \<mapsto> fold (\<lambda>(k, v). upsert k v) batch es)\<rparr>,
            n + length batch)"
proof -
  let ?t = "\<lparr>buckets = committed st, fails = (\<lambda>_. None)\<rparr>"
  have f: "fails ?t = (\<lambda>_. None)" and b: "buckets ?t (IndexBucket i) = Some es"
    using assms by simp_all
  show ?thesis
    using assms
    by (simp add: Update_def beginTx_def writeBatch_def indexBucket_def txBucket_def
        putBatch_ok [OF f b])
qed

text \<open>
  The batch size is not validated: \<^verbatim>\<open>WithPopulateBatchSize\<close> stores what it is given,
  and with a batch size of zero the loop never returns while the store accepts the (empty)
  batches.
\<close>

lemma WithPopulateBatchSize_unchecked:
  "populateBatchSize (NewIndex sourceB indexB fn [WithPopulateBatchSize n]) = n"
  by (simp add: NewIndex_def WithPopulateBatchSize_def)

lemma populateLoop_zero_batch_diverges:
  assumes "populateBatchSize i = 0" and "missing \<noteq> []"
    and "faults st = (\<lambda>_ _. None)" and "committed st (IndexBucket i) = Some es"
  shows "populateLoop i st missing n = None"
proof (rule ccontr)
  assume "populateLoop i st missing n \<noteq> None"
  then obtain r where r: "populateLoop i st missing n = Some r" by auto
  let ?stuck = "\<lambda>i st missing. populateBatchSize i = 0 \<and> missing \<noteq> []
      \<and> faults st = (\<lambda>_ _. None) \<and> (\<exists>es. committed st (IndexBucket i) = Some es)"
  have "\<not> ?stuck i st missing"
  proof (rule populateLoop.raw_induct
            [where P = "\<lambda>i st missing n (r :: nat \<times> error option \<times> store). \<not> ?stuck i st missing", OF _ r])
    fix loop :: "index \<Rightarrow> store \<Rightarrow> kvs \<Rightarrow> nat \<Rightarrow> (nat \<times> error option \<times> store) option"
    fix i st missing n and y :: "nat \<times> error option \<times> store"
    assume IH: "\<And>i st missing n y. loop i st missing n = Some y \<Longrightarrow> \<not> ?stuck i st missing"
    assume body: "(if length missing > 0 then
        (let end = (if populateBatchSize i > int (length missing)
                    then int (length missing) else populateBatchSize i)
         in if end < 0 then Some (n, Some PanicSliceBounds, st)
            else
              (case Update st (writeBatch i (take (nat end) missing)) n of
                 (Some err, st', n') \<Rightarrow> Some (n', Some err, st')
               | (None, st', n') \<Rightarrow> loop i st' (drop (nat end) missing) n'))
      else Some (n, None, st)) = Some y"
    show "\<not> ?stuck i st missing"
    proof
      assume a: "?stuck i st missing"
      then obtain es where es: "committed st (IndexBucket i) = Some es" by blast
      let ?st = "st\<lparr>started := started st + 1,
               committed := (committed st)(IndexBucket i \<mapsto> es)\<rparr>"
      have u: "Update st (writeBatch i []) n = (None, ?st, n)"
        using Update_writeBatch_ok [of st i es "[]" n] a es by simp
      from body a u have "loop i ?st missing n = Some y" by simp
      from IH [OF this] a show False by simp
    qed
  qed
  with assms show False by blast
qed


subsection \<open>Populate on a store without failures\<close>

lemma populateLoop_ok:
  assumes "0 < populateBatchSize i"
    and "faults st = (\<lambda>_ _. None)" and "committed st (IndexBucket i) = Some es"
  shows "\<exists>st'. populateLoop i st missing n = Some (n + length missing, None, st')
             \<and> faults st' = (\<lambda>_ _. None)
             \<and> committed st' = (committed st)(IndexBucket i \<mapsto> fold (\<lambda>(k, v). upsert k v) missing es)"
  using assms(2,3)
proof (induction "length missing" arbitrary: missing st n es rule: less_induct)
  case less
  show ?case
  proof (cases "missing = []")
    case True
    with less.prems show ?thesis
      by (subst populateLoop.simps) (simp add: fun_upd_idem)
  next
    case False
    define e where "e = (if populateBatchSize i > int (length missing)
                         then int (length missing) else populateBatchSize i)"
    have epos: "0 < e" using assms(1) False by (simp add: e_def)
    then have shorter: "length (drop (nat e) missing) < length missing"
      using False by simp
    let ?es = "fold (\<lambda>(k, v). upsert k v) (take (nat e) missing) es"
    let ?st = "st\<lparr>started := started st + 1,
                  committed := (committed st)(IndexBucket i \<mapsto> ?es)\<rparr>"
    have u: "Update st (writeBatch i (take (nat e) missing)) n
               = (None, ?st, n + length (take (nat e) missing))"
      by (rule Update_writeBatch_ok [OF less.prems])
    have f: "faults ?st = (\<lambda>_ _. None)" and c: "committed ?st (IndexBucket i) = Some ?es"
      using less.prems by simp_all
    from less.hyps [OF shorter f c, of "n + length (take (nat e) missing)"]
    obtain st' where
      run: "populateLoop i ?st (drop (nat e) missing) (n + length (take (nat e) missing))
              = Some (n + length (take (nat e) missing) + length (drop (nat e) missing), None, st')"
      and f': "faults st' = (\<lambda>_ _. None)"
      and c': "committed st' = (committed ?st)(IndexBucket i \<mapsto>
                  fold (\<lambda>(k, v). upsert k v) (drop (nat e) missing) ?es)"
      by blast
    have len: "n + length (take (nat e) missing) + length (drop (nat e) missing) = n + length missing"
      by simp
    have fo: "fold (\<lambda>(k, v). upsert k v) (drop (nat e) missing) ?es
                = fold (\<lambda>(k, v). upsert k v) missing es"
      using fold_append [of "\<lambda>(k, v). upsert k v" "take (nat e) missing" "drop (nat e) missing"]
      by simp
    have "populateLoop i st missing n = Some (n + length missing, None, st')"
      using False epos u run unfolding len
      by (subst populateLoop.simps) (simp add: e_def [symmetric] Let_def)
    moreover have "committed st' = (committed st)(IndexBucket i \<mapsto> fold (\<lambda>(k, v). upsert k v) missing es)"
      unfolding c' fo by simp
    ultimately show ?thesis using f' by blast
  qed
qed

lemma collectMissing_three:
  assumes "fails t = (\<lambda>_. None)"
    and "buckets t (SourceBucket i) = Some [(a1, v1), (a2, v2), (a3, v3)]"
    and "buckets t (IndexBucket i) = Some []"
    and "IndexSourceOn i v1 = Inr u1" and "IndexSourceOn i v2 = Inr u1"
    and "IndexSourceOn i v3 = Inr u2"
  shows "collectMissing i t [] =
           (None, [(u1 @ CHR ''/'' # a1, a1), (u1 @ CHR ''/'' # a2, a2), (u2 @ CHR ''/'' # a3, a3)])"
  using assms
  by (simp add: collectMissing_def sourceBucket_def indexBucket_def txBucket_ok ForwardCursor_ok
      missingIndexWalk_def crossReference_def missingIndexWalkMapping_def Get_ok contents_def
      indexKey_def IsNotFound_def cursorClose_def)

lemma collectMissing_three_present:
  assumes "fails t = (\<lambda>_. None)"
    and "buckets t (SourceBucket i) = Some [(a1, v1), (a2, v2), (a3, v3)]"
    and "buckets t (IndexBucket i) = Some (fold (\<lambda>(k, v). upsert k v)
           [(u1 @ CHR ''/'' # a1, a1), (u1 @ CHR ''/'' # a2, a2), (u2 @ CHR ''/'' # a3, a3)] [])"
    and "IndexSourceOn i v1 = Inr u1" and "IndexSourceOn i v2 = Inr u1"
    and "IndexSourceOn i v3 = Inr u2"
  shows "collectMissing i t [] = (None, [])"
  using assms
  by (simp add: collectMissing_def sourceBucket_def indexBucket_def txBucket_ok ForwardCursor_ok
      missingIndexWalk_def crossReference_def missingIndexWalkMapping_def Get_ok contents_def
      indexKey_def IsNotFound_def cursorClose_def map_of_upsert del: upsert.simps)


lemma View_ok:
  assumes "faults st = (\<lambda>_ _. None)"
  shows "View st fn a =
           (case fn \<lparr>buckets = committed st, fails = (\<lambda>_. None)\<rparr> a of
              (err, a') \<Rightarrow> (err, st\<lparr>started := started st + 1\<rparr>, a'))"
  using assms by (simp add: View_def beginTx_def split: prod.splits option.splits)

text \<open>
  C5. A source of three records, the first two derived to foreign key \<open>u1\<close> and the third
  to \<open>u2\<close>, and an empty index: \<^verbatim>\<open>Populate\<close> returns the count 3 and no error, and leaves
  the three composite keys present in the index; \<^verbatim>\<open>Populate\<close> run again on the resulting
  store returns the count 0 and no error.
\<close>

theorem Populate_backfill_then_noop:
  assumes "faults st = (\<lambda>_ _. None)"
    and "committed st (SourceBucket i) = Some [(a1, v1), (a2, v2), (a3, v3)]"
    and "committed st (IndexBucket i) = Some []"
    and "IndexSourceOn i v1 = Inr u1" and "IndexSourceOn i v2 = Inr u1"
    and "IndexSourceOn i v3 = Inr u2"
    and "0 < populateBatchSize i"
  shows "\<exists>st1 st2 idx. Populate i st = Some (3, None, st1)
           \<and> committed st1 (IndexBucket i) = Some idx
           \<and> map_of idx (u1 @ CHR ''/'' # a1) \<noteq> None
           \<and> map_of idx (u1 @ CHR ''/'' # a2) \<noteq> None
           \<and> map_of idx (u2 @ CHR ''/'' # a3) \<noteq> None
           \<and> Populate i st1 = Some (0, None, st2)"
proof -
  let ?missing = "[(u1 @ CHR ''/'' # a1, a1), (u1 @ CHR ''/'' # a2, a2), (u2 @ CHR ''/'' # a3, a3)]"
  let ?idx = "fold (\<lambda>(k, v). upsert k v) ?missing []"
  let ?t = "\<lparr>buckets = committed st, fails = (\<lambda>_. None)\<rparr>"
  let ?st0 = "st\<lparr>started := started st + 1\<rparr>"
  have ne: "SourceBucket i \<noteq> IndexBucket i" using assms(2,3) by auto
  have "collectMissing i ?t [] = (None, ?missing)"
    using collectMissing_three [of ?t i a1 v1 a2 v2 a3 v3 u1 u2] assms by simp
  then have v1: "View st (collectMissing i) [] = (None, ?st0, ?missing)"
    by (simp add: View_ok [OF assms(1)])
  have f0: "faults ?st0 = (\<lambda>_ _. None)" and c0: "committed ?st0 (IndexBucket i) = Some []"
    using assms(1,3) by simp_all
  from populateLoop_ok [OF assms(7) f0 c0, of ?missing 0]
  obtain st1 where l1: "populateLoop i ?st0 ?missing 0 = Some (0 + length ?missing, None, st1)"
    and f1: "faults st1 = (\<lambda>_ _. None)"
    and c1: "committed st1 = (committed ?st0)(IndexBucket i \<mapsto> ?idx)"
    by blast
  have p1: "Populate i st = Some (3, None, st1)"
    using v1 l1 by (simp add: Populate_def)
  let ?t1 = "\<lparr>buckets = committed st1, fails = (\<lambda>_. None)\<rparr>"
  let ?st1 = "st1\<lparr>started := started st1 + 1\<rparr>"
  have "collectMissing i ?t1 [] = (None, [])"
    using collectMissing_three_present [of ?t1 i a1 v1 a2 v2 a3 v3 u1 u2] assms ne c1
    by simp
  then have v2: "View st1 (collectMissing i) [] = (None, ?st1, [])"
    by (simp add: View_ok [OF f1])
  have "populateLoop i ?st1 [] 0 = Some (0, None, ?st1)"
    by (subst populateLoop.simps) simp
  with v2 have p2: "Populate i st1 = Some (0, None, ?st1)"
    by (simp add: Populate_def)
  have ci: "committed st1 (IndexBucket i) = Some ?idx" using c1 by simp
  have m: "map_of ?idx (u1 @ CHR ''/'' # a1) \<noteq> None"
    "map_of ?idx (u1 @ CHR ''/'' # a2) \<noteq> None"
    "map_of ?idx (u2 @ CHR ''/'' # a3) \<noteq> None"
    by (simp_all add: map_of_upsert del: upsert.simps)
  from p1 p2 ci m show ?thesis by blast
qed

theorem Populate_backfill_then_noop_witness:
  "faults (exampleStore [(''a1'', ''u1''), (''a2'', ''u1''), (''a3'', ''u2'')] []) = (\<lambda>_ _. None)
   \<and> 0 < populateBatchSize exampleIndex
   \<and> (\<exists>st1 st2. Populate exampleIndex
                    (exampleStore [(''a1'', ''u1''), (''a2'', ''u1''), (''a3'', ''u2'')] [])
                  = Some (3, None, st1)
               \<and> Populate exampleIndex st1 = Some (0, None, st2))"
proof -
  let ?st = "exampleStore [(''a1'', ''u1''), (''a2'', ''u1''), (''a3'', ''u2'')] []"
  have h1: "faults ?st = (\<lambda>_ _. None)" by (simp add: exampleStore_def)
  have h2: "committed ?st (SourceBucket exampleIndex)
              = Some [(''a1'', ''u1''), (''a2'', ''u1''), (''a3'', ''u2'')]"
    by (simp add: exampleStore_def exampleBuckets_def exampleIndex_simps)
  have h3: "committed ?st (IndexBucket exampleIndex) = Some []"
    by (simp add: exampleStore_def exampleBuckets_def exampleIndex_simps)
  have h4: "IndexSourceOn exampleIndex ''u1'' = Inr ''u1''"
    and h5: "IndexSourceOn exampleIndex ''u2'' = Inr ''u2''"
    by (simp_all add: exampleIndex_simps byUserID_def)
  have h6: "0 < populateBatchSize exampleIndex" by (simp add: exampleIndex_simps)
  from Populate_backfill_then_noop [OF h1 h2 h3 h4 h4 h5 h6] h1 h6 show ?thesis by blast
qed


subsection \<open>Populate when a batch fails\<close>
















subsection \<open>Verify when it fails\<close>

lemma appendAt_grouped: "appendAt (grouped ps) fk pk = grouped (ps @ [(fk, pk)])"
proof
  fix x
  show "appendAt (grouped ps) fk pk x = grouped (ps @ [(fk, pk)]) x"
    by (cases "map snd (filter (\<lambda>(f, p). f = fk) ps)")
       (auto simp: appendAt_def grouped_def split: list.splits)
qed

lemma diffOf_Nil: "diffOf [] = emptyDiff"
  by (simp add: diffOf_def emptyDiff_def grouped_def fun_eq_iff)

lemma diffOf_present: "addToPresent (diffOf es) fk pk = diffOf (es @ [PresentEntry fk pk])"
  by (simp add: addToPresent_def diffOf_def appendAt_grouped)

lemma diffOf_missingSource:
  "addMissingSource (diffOf es) fk pk = diffOf (es @ [MissingSourceEntry fk pk])"
  by (simp add: addMissingSource_def diffOf_def appendAt_grouped)

lemma diffOf_missingIndex:
  "addMissingIndex (diffOf es) fk pk = diffOf (es @ [MissingIndexEntry fk pk])"
  by (simp add: addMissingIndex_def diffOf_def appendAt_grouped)

lemma diffOf_noEntry: "diffOf (es @ [NoEntry]) = diffOf es"
  by (simp add: diffOf_def)


lemma Verify_index_walk:
  "crossReferenceLoop rs t sourceB (indexWalkMapping (verifyVisit i) verifyNotFound) (diffOf es)
     = (firstFailure (indexRowRecords i t sourceB) rs,
        fst (snd (crossReferenceLoop rs t sourceB
                    (indexWalkMapping (verifyVisit i) verifyNotFound) (diffOf es))),
        diffOf (es @ recordedUntilFailure (indexRowRecords i t sourceB) rs))"
proof (induction rs arbitrary: es)
  case Nil
  then show ?case by simp
next
  case (Cons r rs)
  obtain k pk where r: "r = (k, pk)" by (cases r)
  show ?case
  proof (cases "indexRowRecords i t sourceB (k, pk)")
    case (Inl err)
    then show ?thesis
      unfolding r
      by (auto simp: indexWalkMapping_def IsNotFound_def diffOf_missingSource
          split: sum.splits if_splits prod.splits)
  next
    case (Inr e)
    then consider
        (hit) v fk where "Get t sourceB pk = Inr v" "IndexSourceOn i v = Inr fk"
          "e = PresentEntry fk pk"
      | (miss) fk pk' where "Get t sourceB pk = Inl ErrKeyNotFound"
          "indexKeyParts k = Inr (fk, pk')" "e = MissingSourceEntry fk pk'"
      by (auto split: sum.splits if_splits prod.splits)
    then show ?thesis
    proof cases
      case hit
      with Inr Cons.IH [of "es @ [PresentEntry fk pk]"] show ?thesis
        unfolding r by (simp add: indexWalkMapping_def diffOf_present)
    next
      case miss
      with Inr Cons.IH [of "es @ [MissingSourceEntry fk pk']"] show ?thesis
        unfolding r by (simp add: indexWalkMapping_def IsNotFound_def diffOf_missingSource)
    qed
  qed
qed

lemma Verify_source_walk:
  "crossReferenceLoop rs t indexB (missingIndexWalkMapping i verifyMissingIndex) (diffOf es)
     = (firstFailure (sourceRowRecords i t indexB) rs,
        fst (snd (crossReferenceLoop rs t indexB
                    (missingIndexWalkMapping i verifyMissingIndex) (diffOf es))),
        diffOf (es @ recordedUntilFailure (sourceRowRecords i t indexB) rs))"
proof (induction rs arbitrary: es)
  case Nil
  then show ?case by simp
next
  case (Cons r rs)
  obtain pk body where r: "r = (pk, body)" by (cases r)
  show ?case
  proof (cases "sourceRowRecords i t indexB (pk, body)")
    case (Inl err)
    then show ?thesis
      unfolding r
      by (auto simp: missingIndexWalkMapping_def IsNotFound_def indexKey_def
          split: sum.splits if_splits prod.splits)
  next
    case (Inr e)
    then consider
        (hit) fk v where "IndexSourceOn i body = Inr fk"
          "Get t indexB (fk @ CHR ''/'' # pk) = Inr v" "e = NoEntry"
      | (miss) fk fk' pk' where "IndexSourceOn i body = Inr fk"
          "Get t indexB (fk @ CHR ''/'' # pk) = Inl ErrKeyNotFound"
          "indexKeyParts (fk @ CHR ''/'' # pk) = Inr (fk', pk')" "e = MissingIndexEntry fk' pk'"
      by (auto split: sum.splits if_splits prod.splits)
    then show ?thesis
    proof cases
      case hit
      with Inr Cons.IH [of "es @ [NoEntry]"] show ?thesis
        unfolding r by (simp add: missingIndexWalkMapping_def indexKey_def diffOf_noEntry)
    next
      case miss
      with Inr Cons.IH [of "es @ [MissingIndexEntry fk' pk']"] show ?thesis
        unfolding r
        by (simp add: missingIndexWalkMapping_def indexKey_def IsNotFound_def diffOf_missingIndex)
    qed
  qed
qed


lemma Verify_records: "fst (Verify i t) = recordedBeforeFailure i t"
proof (cases "sourceBucket i t")
  case (Inl err)
  then show ?thesis by (simp add: Verify_def recordedBeforeFailure_def diffOf_Nil)
next
  case sb: (Inr sourceB)
  show ?thesis
  proof (cases "indexBucket i t")
    case (Inl err)
    with sb show ?thesis by (simp add: Verify_def recordedBeforeFailure_def diffOf_Nil)
  next
    case ib: (Inr indexB)
    show ?thesis
    proof (cases "ForwardCursor t indexB [] None")
      case (Inl err)
      with sb ib show ?thesis by (simp add: Verify_def recordedBeforeFailure_def diffOf_Nil)
    next
      case cur: (Inr cur)
      let ?fromIndex = "recordedUntilFailure (indexRowRecords i t sourceB) (rows cur)"
      obtain restA where A:
        "crossReferenceLoop (rows cur) t sourceB
           (indexWalkMapping (verifyVisit i) verifyNotFound) emptyDiff
         = (firstFailure (indexRowRecords i t sourceB) (rows cur), restA, diffOf ?fromIndex)"
        using Verify_index_walk [of "rows cur" t sourceB i "[]"] by (simp add: diffOf_Nil)
      have V: "Verify i t =
        (case firstFailure (indexRowRecords i t sourceB) (rows cur) of
           Some e \<Rightarrow> (diffOf ?fromIndex, Some e)
         | None \<Rightarrow>
             (case iterErr cur of
                Some e \<Rightarrow> (diffOf ?fromIndex, Some e)
              | None \<Rightarrow>
                  (case closeErr cur of
                     Some e \<Rightarrow> (diffOf ?fromIndex, Some e)
                   | None \<Rightarrow>
                       (case ForwardCursor t sourceB [] None of
                          Inl err \<Rightarrow> (diffOf ?fromIndex, Some err)
                        | Inr cur2 \<Rightarrow>
                            (case missingIndexWalk i cur2 t indexB verifyMissingIndex
                                    (diffOf ?fromIndex) of
                               (err, c'', diff') \<Rightarrow> (diff', err))))))"
        using sb ib cur
        by (simp add: Verify_def indexWalk_def crossReference_def cursorClose_def A
            split: option.splits)
      show ?thesis
      proof (cases "firstFailure (indexRowRecords i t sourceB) (rows cur) \<noteq> None
                     \<or> iterErr cur \<noteq> None \<or> closeErr cur \<noteq> None")
        case True
        then have "fst (Verify i t) = diffOf ?fromIndex"
          unfolding V by (auto split: option.splits)
        with True sb ib cur show ?thesis
          by (simp add: recordedBeforeFailure_def Let_def)
      next
        case False
        show ?thesis
        proof (cases "ForwardCursor t sourceB [] None")
          case (Inl err)
          with False have "fst (Verify i t) = diffOf ?fromIndex"
            unfolding V by (auto split: option.splits)
          with False Inl sb ib cur show ?thesis
            by (simp add: recordedBeforeFailure_def Let_def)
        next
          case (Inr cur2)
          obtain restB where B:
            "crossReferenceLoop (rows cur2) t indexB
               (missingIndexWalkMapping i verifyMissingIndex) (diffOf ?fromIndex)
             = (firstFailure (sourceRowRecords i t indexB) (rows cur2), restB,
                diffOf (?fromIndex @ recordedUntilFailure (sourceRowRecords i t indexB) (rows cur2)))"
            using Verify_source_walk [of "rows cur2" t indexB i ?fromIndex] by simp
          from False Inr have "fst (Verify i t)
              = diffOf (?fromIndex @ recordedUntilFailure (sourceRowRecords i t indexB) (rows cur2))"
            unfolding V
            by (auto simp: missingIndexWalk_def crossReference_def cursorClose_def B Let_def
                split: option.splits)
          with False Inr sb ib cur show ?thesis
            by (simp add: recordedBeforeFailure_def Let_def)
        qed
      qed
    qed
  qed
qed

text \<open>Nothing is recorded when a bucket or the index cursor cannot be obtained.\<close>

lemma recordedBeforeFailure_early:
  "sourceBucket i t = Inl e \<or> indexBucket i t = Inl e
     \<or> ForwardCursor t (IndexBucket i) [] None = Inl e \<Longrightarrow>
   recordedBeforeFailure i t = emptyDiff"
  by (auto simp: recordedBeforeFailure_def diffOf_Nil indexBucket_def txBucket_def
      split: sum.splits option.splits)

text \<open>
  C2 (as amended). When \<^verbatim>\<open>Verify\<close> returns an error, the diff returned with it is not
  reset: it holds exactly what the rows processed before the failure recorded, in both
  walks, with the primary keys of each foreign key in the order of the rows. It is empty
  when nothing was recorded before the failure, as when a bucket or the index cursor
  cannot be obtained.
\<close>

theorem Verify_error_diff:
  assumes "Verify i t = (d, Some e)"
  shows "d = recordedBeforeFailure i t"
  using assms Verify_records [of i t] by simp

theorem Verify_error_diff_witness:
  "Verify exampleIndex
     (exampleTx [(''a1'', ''u1''), (''a2'', ''u1''), (''a3'', ''??'')] [(''u1/a1'', ''a1'')])
     = (addMissingIndex (addToPresent emptyDiff ''u1'' ''a1'') ''u1'' ''a2'',
        Some (ErrDerive ''malformed''))
   \<and> addMissingIndex (addToPresent emptyDiff ''u1'' ''a1'') ''u1'' ''a2''
     = recordedBeforeFailure exampleIndex
         (exampleTx [(''a1'', ''u1''), (''a2'', ''u1''), (''a3'', ''??'')] [(''u1/a1'', ''a1'')])
   \<and> recordedBeforeFailure exampleIndex
         (exampleTx [(''a1'', ''u1''), (''a2'', ''u1''), (''a3'', ''??'')] [(''u1/a1'', ''a1'')])
     = diffOf [PresentEntry ''u1'' ''a1'', NoEntry, MissingIndexEntry ''u1'' ''a2'']
   \<and> PresentInIndex (diffOf [PresentEntry ''u1'' ''a1'', NoEntry, MissingIndexEntry ''u1'' ''a2''])
        ''u1'' = Some [''a1'']
   \<and> MissingFromIndex (diffOf [PresentEntry ''u1'' ''a1'', NoEntry, MissingIndexEntry ''u1'' ''a2''])
        ''u1'' = Some [''a2'']"
proof -
  let ?t = "exampleTx [(''a1'', ''u1''), (''a2'', ''u1''), (''a3'', ''??'')] [(''u1/a1'', ''a1'')]"
  have V: "Verify exampleIndex ?t
             = (addMissingIndex (addToPresent emptyDiff ''u1'' ''a1'') ''u1'' ''a2'',
                Some (ErrDerive ''malformed''))"
    by (simp add: Verify_def sourceBucket_def indexBucket_def txBucket_ok ForwardCursor_ok
        indexWalk_def missingIndexWalk_def crossReference_def cursorClose_def contents_def
        exampleIndex_simps exampleTx_simps indexWalkMapping_def missingIndexWalkMapping_def
        Get_ok byUserID_def indexKey_def IsNotFound_def indexKeyParts_def SplitN2_def)
  have R: "recordedBeforeFailure exampleIndex ?t
             = diffOf [PresentEntry ''u1'' ''a1'', NoEntry, MissingIndexEntry ''u1'' ''a2'']"
    by (simp add: recordedBeforeFailure_def sourceBucket_def indexBucket_def txBucket_ok
        ForwardCursor_ok contents_def exampleIndex_simps exampleTx_simps Get_ok byUserID_def
        indexKeyParts_def SplitN2_def)
  have P: "PresentInIndex (diffOf [PresentEntry ''u1'' ''a1'', NoEntry, MissingIndexEntry ''u1'' ''a2''])
        ''u1'' = Some [''a1'']"
    "MissingFromIndex (diffOf [PresentEntry ''u1'' ''a1'', NoEntry, MissingIndexEntry ''u1'' ''a2''])
        ''u1'' = Some [''a2'']"
    by (simp_all add: diffOf_def grouped_def)
  from Verify_error_diff [OF V] V R P show ?thesis by simp
qed

text \<open>
  C2 (as stated) fails: the index holds entries for \<open>a1\<close> and \<open>a2\<close> under \<open>u1\<close>, and the
  value of \<open>a2\<close> in the source is malformed. \<^verbatim>\<open>Verify\<close> records \<open>a1\<close>, fails on \<open>a2\<close> and
  returns the error together with a diff in which \<open>a1\<close> is present.
\<close>

theorem Verify_partial_diff_counterexample:
  "snd (Verify exampleIndex
         (exampleTx [(''a1'', ''u1''), (''a2'', ''??'')]
                    [(''u1/a1'', ''a1''), (''u1/a2'', ''a2'')]))
     = Some (ErrDerive ''malformed'')
   \<and> PresentInIndex (fst (Verify exampleIndex
         (exampleTx [(''a1'', ''u1''), (''a2'', ''??'')]
                    [(''u1/a1'', ''a1''), (''u1/a2'', ''a2'')]))) ''u1'' = Some [''a1'']
   \<and> fst (Verify exampleIndex
         (exampleTx [(''a1'', ''u1''), (''a2'', ''??'')]
                    [(''u1/a1'', ''a1''), (''u1/a2'', ''a2'')])) \<noteq> emptyDiff"
proof -
  let ?t = "exampleTx [(''a1'', ''u1''), (''a2'', ''??'')] [(''u1/a1'', ''a1''), (''u1/a2'', ''a2'')]"
  have V: "Verify exampleIndex ?t
             = (addToPresent emptyDiff ''u1'' ''a1'', Some (ErrDerive ''malformed''))"
    by (simp add: Verify_def sourceBucket_def indexBucket_def txBucket_ok ForwardCursor_ok
        indexWalk_def crossReference_def cursorClose_def contents_def exampleIndex_simps
        exampleTx_simps indexWalkMapping_def Get_ok byUserID_def)
  have P: "PresentInIndex (addToPresent emptyDiff ''u1'' ''a1'') ''u1'' = Some [''a1'']"
    by (simp add: addToPresent_def appendAt_def emptyDiff_def)
  have "addToPresent emptyDiff ''u1'' ''a1'' \<noteq> emptyDiff"
    using P by (auto simp: emptyDiff_def)
  with V P show ?thesis by simp
qed

end
